theory Spec2Isabelle
  imports Main "HOL-Library.Word"
begin

unbundle bit_operations_syntax

section \<open>Pico-Remote-Analyzer: capture of an infrared burst and its decoding\<close>

text \<open>
  The embedding follows \<^verbatim>\<open>Pico-Remote-Analyzer.c\<close> (the capture arrays, the interrupt
  handler \<^verbatim>\<open>isr_signal_trap\<close>, \<^verbatim>\<open>init_burst_variables\<close>) and \<^verbatim>\<open>Samsung.c\<close>
  (\<^verbatim>\<open>decode_ir_command\<close>, the file selected by \<^verbatim>\<open>REMOTE_FILENAME\<close>).
  The body of \<^verbatim>\<open>decode_ir_command\<close> in \<^verbatim>\<open>Memorex.c\<close> is the same text up to the
  value of \<^verbatim>\<open>NUMBER_OF_STEPS\<close> and the unreachable \<^verbatim>\<open>switch\<close>.

  C's fixed-width unsigned integers are words. The global arrays are lists; an access
  whose index is not below the length of the array is undefined behaviour in C and is a
  \<open>fault\<close> value here, so that every function returns \<open>fault + result\<close>.
\<close>

subsection \<open>Constants of the two source files\<close>

definition FLAG_OFF :: "8 word" where "FLAG_OFF = 0"
definition FLAG_ON :: "8 word" where "FLAG_ON = 1"
definition MAX_BUTTONS :: nat where "MAX_BUTTONS = 128"
definition MAX_IR_READINGS :: nat where "MAX_IR_READINGS = 500"
definition IR_RX :: "8 word" where "IR_RX = 22"

definition NUMBER_OF_BITS :: nat where "NUMBER_OF_BITS = 32"
definition NUMBER_OF_STEPS :: nat where "NUMBER_OF_STEPS = 135"
definition NUMBER_OF_WAKEUP_STEPS :: nat where "NUMBER_OF_WAKEUP_STEPS = 2"
definition SEPARATOR :: "32 word" where "SEPARATOR = 10000"
definition TRIGGER_POINT_0_1 :: "32 word" where "TRIGGER_POINT_0_1 = 750"

subsection \<open>Memory faults and checked array accesses\<close>

datatype fault = OutOfBoundsRead nat | OutOfBoundsWrite nat

definition rd :: "'a list \<Rightarrow> nat \<Rightarrow> fault + 'a" where
  "rd a i = (if i < length a then Inr (a ! i) else Inl (OutOfBoundsRead i))"

definition wr :: "'a list \<Rightarrow> nat \<Rightarrow> 'a \<Rightarrow> fault + 'a list" where
  "wr a i v = (if i < length a then Inr (a[i := v]) else Inl (OutOfBoundsWrite i))"

definition bnd :: "fault + 'a \<Rightarrow> ('a \<Rightarrow> fault + 'b) \<Rightarrow> fault + 'b" where
  "bnd m f = (case m of Inl e \<Rightarrow> Inl e | Inr v \<Rightarrow> f v)"

subsection \<open>The capture state and the interrupt handler\<close>

text \<open>
  The five \<^verbatim>\<open>volatile\<close> globals of \<^verbatim>\<open>Pico-Remote-Analyzer.c\<close>, lines 68 to 72. The
  four arrays are declared with \<^verbatim>\<open>MAX_IR_READINGS\<close> elements.
\<close>

record capture =
  IrFinalValue :: "64 word list"
  IrInitialValue :: "64 word list"
  IrLevel :: "8 word list"
  IrResultValue :: "32 word list"
  IrStepCount :: "16 word"

definition capture_arrays_ok :: "capture \<Rightarrow> bool" where
  "capture_arrays_ok c =
     (length (IrFinalValue c) = MAX_IR_READINGS \<and> length (IrInitialValue c) = MAX_IR_READINGS \<and>
      length (IrLevel c) = MAX_IR_READINGS \<and> length (IrResultValue c) = MAX_IR_READINGS)"

text \<open>\<^verbatim>\<open>init_burst_variables\<close>: the count is zeroed and every element of the four arrays is reset.\<close>

definition init_burst_variables :: "capture \<Rightarrow> capture" where
  "init_burst_variables c =
     \<lparr>IrFinalValue = replicate MAX_IR_READINGS 0,
      IrInitialValue = replicate MAX_IR_READINGS 0,
      IrLevel = replicate MAX_IR_READINGS 2,
      IrResultValue = replicate MAX_IR_READINGS 0,
      IrStepCount = 0\<rparr>"

text \<open>
  One level has just ended at time \<open>t\<close>: the statements
  \<^verbatim>\<open>IrFinalValue[IrStepCount] = time_us_64(); IrResultValue[IrStepCount] = (UINT32)(...);
  IrLevel[IrStepCount] = level; ++IrStepCount;\<close> shared by the two branches of the handler.
  The index is never compared with \<^verbatim>\<open>MAX_IR_READINGS\<close>.
\<close>

definition close_level :: "8 word \<Rightarrow> 64 word \<Rightarrow> capture \<Rightarrow> fault + capture" where
  "close_level level t c =
     (let n = unat (IrStepCount c) in
      bnd (wr (IrFinalValue c) n t) (\<lambda>fin.
      bnd (rd fin n) (\<lambda>f.
      bnd (rd (IrInitialValue c) n) (\<lambda>i.
      bnd (wr (IrResultValue c) n (ucast (f - i))) (\<lambda>res.
      bnd (wr (IrLevel c) n level) (\<lambda>lev.
      Inr (c\<lparr>IrFinalValue := fin, IrResultValue := res, IrLevel := lev,
              IrStepCount := IrStepCount c + 1\<rparr>)))))))"

text \<open>\<^verbatim>\<open>IrInitialValue[IrStepCount] = time_us_64();\<close>: the start of the level that begins.\<close>

definition open_level :: "64 word \<Rightarrow> capture \<Rightarrow> fault + capture" where
  "open_level t c =
     bnd (wr (IrInitialValue c) (unat (IrStepCount c)) t) (\<lambda>ini.
     Inr (c\<lparr>IrInitialValue := ini\<rparr>))"

text \<open>
  \<^verbatim>\<open>isr_signal_trap(gpio, Events)\<close>. The masks \<^verbatim>\<open>GPIO_IRQ_EDGE_RISE\<close> and
  \<^verbatim>\<open>GPIO_IRQ_EDGE_FALL\<close> come from the Pico SDK and are parameters. \<open>tr\<close> holds the
  two readings of \<^verbatim>\<open>time_us_64()\<close> made by the rising branch, \<open>tf\<close> the two of the
  falling branch. Acknowledging the interrupt changes no modelled state.
\<close>

definition rise_branch :: "64 word \<times> 64 word \<Rightarrow> capture \<Rightarrow> fault + capture" where
  "rise_branch tr c = bnd (close_level 0 (fst tr) c) (open_level (snd tr))"

definition fall_branch :: "64 word \<times> 64 word \<Rightarrow> capture \<Rightarrow> fault + capture" where
  "fall_branch tf c =
     bnd (if IrStepCount c > 0 then close_level 1 (fst tf) c else Inr c) (open_level (snd tf))"

definition isr_signal_trap ::
  "32 word \<Rightarrow> 32 word \<Rightarrow> 8 word \<Rightarrow> 32 word \<Rightarrow> 64 word \<times> 64 word \<Rightarrow> 64 word \<times> 64 word \<Rightarrow>
   capture \<Rightarrow> fault + capture" where
  "isr_signal_trap GPIO_IRQ_EDGE_RISE GPIO_IRQ_EDGE_FALL gpio Events tr tf c =
     (if gpio = IR_RX then
        bnd (if Events AND GPIO_IRQ_EDGE_RISE \<noteq> 0 then rise_branch tr c else Inr c) (\<lambda>c1.
        if Events AND GPIO_IRQ_EDGE_FALL \<noteq> 0 then fall_branch tf c1 else Inr c1)
      else Inr c)"

subsection \<open>The decoder: \<^verbatim>\<open>decode_ir_command\<close> of \<^verbatim>\<open>Samsung.c\<close>\<close>

text \<open>
  What the function sends out, as far as the properties below need it: the line printed when a duration
  exceeds \<^verbatim>\<open>SEPARATOR\<close> (line 102, with the step), the error sent by \<^verbatim>\<open>uart_send\<close> for
  a long low level (lines 115 and 116, with the event number and the duration), and the
  final line (line 137, with \<^verbatim>\<open>DataBuffer\<close>, \<^verbatim>\<open>IrStepCount\<close> and \<^verbatim>\<open>NUMBER_OF_STEPS\<close>).
  The other \<^verbatim>\<open>printf\<close> calls only display; of those, the model keeps the array reads
  of their arguments (\<open>display_pair\<close>), not the text, and not the lookup in \<^verbatim>\<open>LevelString\<close>.
\<close>

datatype report =
  EndOfData nat
| LowLevelError nat "32 word"
| FinalData "64 word" "16 word" nat

text \<open>
  The local variables of the function. \<^verbatim>\<open>Loop2UInt16\<close> is declared without an initial
  value and the inner \<^verbatim>\<open>for\<close> statement starts with the expression
  \<^verbatim>\<open>Loop2UInt16 - 0\<close>, which assigns nothing: the value the variable holds when the loop
  is first reached is indeterminate, and is a parameter of the model.
\<close>

record locals =
  BitNumber :: "8 word"
  FlagError :: "8 word"
  Loop2UInt16 :: "16 word"
  DataBuffer :: "64 word"
  Reports :: "report list"

text \<open>The four array reads among the arguments of a \<^verbatim>\<open>printf\<close> that displays a pair.\<close>

definition display_pair :: "capture \<Rightarrow> nat \<Rightarrow> fault + unit" where
  "display_pair c i =
     bnd (rd (IrLevel c) i) (\<lambda>_.
     bnd (rd (IrResultValue c) i) (\<lambda>_.
     bnd (rd (IrLevel c) (i + 1)) (\<lambda>_.
     bnd (rd (IrResultValue c) (i + 1)) (\<lambda>_. Inr ()))))"

text \<open>Lines 82 to 89: a pair whose bit number is 1 to 32 is shifted into \<^verbatim>\<open>DataBuffer\<close>.\<close>

definition fold_data_bit :: "capture \<Rightarrow> 16 word \<Rightarrow> locals \<Rightarrow> fault + locals" where
  "fold_data_bit c Loop1UInt16 s =
     (if 0 < BitNumber s \<and> unat (BitNumber s) \<le> NUMBER_OF_BITS then
        bnd (rd (IrResultValue c) (unat Loop1UInt16 + 1)) (\<lambda>d.
        bnd (display_pair c (unat Loop1UInt16)) (\<lambda>_.
        Inr (s\<lparr>DataBuffer :=
                 push_bit 1 (DataBuffer s) + (if d > TRIGGER_POINT_0_1 then 1 else 0)\<rparr>)))
      else Inr s)"

text \<open>Lines 92 to 96: the pairs after bit 32 are displayed only.\<close>

definition display_extra :: "capture \<Rightarrow> 16 word \<Rightarrow> locals \<Rightarrow> fault + locals" where
  "display_extra c Loop1UInt16 s =
     (if unat (BitNumber s) > NUMBER_OF_BITS then
        bnd (display_pair c (unat Loop1UInt16)) (\<lambda>_. Inr s)
      else Inr s)"

text \<open>
  Lines 108 to 130: the body of the inner loop, for the half of the pair at index
  \<^verbatim>\<open>Loop1UInt16 + Loop2UInt16\<close> (the sum is computed in \<^verbatim>\<open>int\<close>). A low level longer
  than the trigger point sets \<^verbatim>\<open>FlagError\<close> and is reported; any other level shifts
  \<^verbatim>\<open>DataBuffer\<close> once more, and adds one for a duration between the trigger point and
  four times the trigger point.
\<close>

definition verify_half :: "capture \<Rightarrow> 16 word \<Rightarrow> locals \<Rightarrow> fault + locals" where
  "verify_half c Loop1UInt16 s =
     bnd (rd (IrLevel c) (unat Loop1UInt16 + unat (Loop2UInt16 s))) (\<lambda>level.
     bnd (rd (IrResultValue c) (unat Loop1UInt16 + unat (Loop2UInt16 s))) (\<lambda>d.
     Inr (if level = 0 then
            (if d > TRIGGER_POINT_0_1
             then s\<lparr>FlagError := FLAG_ON,
                    Reports := Reports s @
                      [LowLevelError (unat Loop1UInt16 + unat (Loop2UInt16 s)) d]\<rparr>
             else s)
          else
            s\<lparr>DataBuffer :=
                push_bit 1 (DataBuffer s) +
                (if d > TRIGGER_POINT_0_1 \<and> d < TRIGGER_POINT_0_1 * 4 then 1 else 0)\<rparr>)))"

text \<open>
  Lines 106 to 131: the inner loop,
  \<^verbatim>\<open>for (Loop2UInt16 - 0; Loop2UInt16 < 2; ++Loop2UInt16)\<close>. It runs while
  \<^verbatim>\<open>Loop2UInt16 < 2\<close> from whatever value the variable holds, and leaves it at 2 or
  above for the rest of the call.
\<close>

function verify_pair :: "capture \<Rightarrow> 16 word \<Rightarrow> locals \<Rightarrow> fault + locals" where
  "verify_pair c Loop1UInt16 s =
     (if Loop2UInt16 s < 2 then
        (case verify_half c Loop1UInt16 s of
           Inl e \<Rightarrow> Inl e
         | Inr s' \<Rightarrow> verify_pair c Loop1UInt16 (s'\<lparr>Loop2UInt16 := Loop2UInt16 s' + 1\<rparr>))
      else Inr s)"
  by pat_completeness auto
termination
proof (relation "measure (\<lambda>(c, l, s). 2 - unat (Loop2UInt16 s))")
  show "wf (measure (\<lambda>(c, l, s). 2 - unat (Loop2UInt16 s)))" by simp
next
  fix c :: capture and Loop1UInt16 :: "16 word" and s s' :: locals
  assume lt: "Loop2UInt16 s < 2" and half: "verify_half c Loop1UInt16 s = Inr s'"
  have same: "Loop2UInt16 s' = Loop2UInt16 s"
    using half by (auto simp: verify_half_def bnd_def split: sum.splits if_splits)
  have u: "unat (Loop2UInt16 s) < 2" using lt by (simp add: word_less_nat_alt)
  then have "unat (Loop2UInt16 s + 1) = unat (Loop2UInt16 s) + 1"
    by (simp add: unat_word_ariths)
  with u same show "((c, Loop1UInt16, s'\<lparr>Loop2UInt16 := Loop2UInt16 s' + 1\<rparr>), c, Loop1UInt16, s)
        \<in> measure (\<lambda>(c, l, s). 2 - unat (Loop2UInt16 s))"
    by simp
qed

text \<open>
  Lines 100 to 132: a duration above \<^verbatim>\<open>SEPARATOR\<close> in either half is reported with the
  step; otherwise the inner loop runs. The second operand of \<^verbatim>\<open>||\<close> is read only when the
  first is false. No statement leaves the outer loop here.
\<close>

definition separator_or_verify :: "capture \<Rightarrow> 16 word \<Rightarrow> locals \<Rightarrow> fault + locals" where
  "separator_or_verify c Loop1UInt16 s =
     bnd (rd (IrResultValue c) (unat Loop1UInt16)) (\<lambda>d0.
     if d0 > SEPARATOR then Inr (s\<lparr>Reports := Reports s @ [EndOfData (unat Loop1UInt16)]\<rparr>)
     else
       bnd (rd (IrResultValue c) (unat Loop1UInt16 + 1)) (\<lambda>d1.
       if d1 > SEPARATOR then Inr (s\<lparr>Reports := Reports s @ [EndOfData (unat Loop1UInt16)]\<rparr>)
       else verify_pair c Loop1UInt16 s))"

text \<open>
  The body of the outer loop, lines 72 to 132. The bit number is computed in \<^verbatim>\<open>int\<close>
  and stored in a \<^verbatim>\<open>UINT8\<close>. The wake-up pair is displayed and skipped by \<^verbatim>\<open>continue\<close>.
\<close>

definition decode_step :: "capture \<Rightarrow> 16 word \<Rightarrow> locals \<Rightarrow> fault + locals" where
  "decode_step c Loop1UInt16 s =
     (if unat Loop1UInt16 \<ge> NUMBER_OF_WAKEUP_STEPS then
        bnd (fold_data_bit c Loop1UInt16
               (s\<lparr>BitNumber :=
                    of_nat ((unat Loop1UInt16 - NUMBER_OF_WAKEUP_STEPS) div 2 + 1)\<rparr>)) (\<lambda>s1.
        bnd (display_extra c Loop1UInt16 s1) (\<lambda>s2.
        separator_or_verify c Loop1UInt16 s2))
      else bnd (display_pair c (unat Loop1UInt16)) (\<lambda>_. Inr s))"

text \<open>
  The outer loop, line 70:
  \<^verbatim>\<open>for (Loop1UInt16 = 0; Loop1UInt16 < IrStepCount; Loop1UInt16 += 2)\<close>. The counter is a
  \<^verbatim>\<open>UINT16\<close> and wraps; nothing in the definition says that the loop ends, so the result
  is an option and \<open>None\<close> stands for a loop that runs forever.
\<close>

partial_function (option) decode_loop ::
  "capture \<Rightarrow> 16 word \<Rightarrow> locals \<Rightarrow> (fault + locals) option" where
  "decode_loop c Loop1UInt16 s =
     (if Loop1UInt16 < IrStepCount c then
        (case decode_step c Loop1UInt16 s of
           Inl e \<Rightarrow> Some (Inl e)
         | Inr s' \<Rightarrow> decode_loop c (Loop1UInt16 + 2) s')
      else Some (Inr s))"

declare decode_loop.simps [code]

text \<open>
  The table of recorded buttons, \<^verbatim>\<open>RemoteData[256]\<close> and \<^verbatim>\<open>RemoteDataTotal\<close>
  (\<^verbatim>\<open>Pico-Remote-Analyzer.c\<close>, lines 85 to 90). \<^verbatim>\<open>main\<close> clears its first
  \<^verbatim>\<open>MAX_BUTTONS\<close> entries only (lines 168 to 172).
\<close>

record button =
  ButtonName :: string
  CommandId :: "64 word"

record remote =
  RemoteData :: "button list"
  RemoteDataTotal :: "16 word"

text \<open>
  A C string written into a buffer of \<open>n\<close> bytes: the characters and the zero that ends
  them. A string of \<open>n\<close> characters or more does not fit, and the write past the end
  of the buffer, at index \<open>n\<close>, is a fault. This is line 143,
  \<^verbatim>\<open>input_string(Dum1Str)\<close> into \<^verbatim>\<open>UCHAR Dum1Str[64]\<close>, where \<^verbatim>\<open>input_string\<close>
  (\<^verbatim>\<open>Pico-Remote-Analyzer.c\<close>, lines 704 to 761) stores up to 128 characters and never
  looks at the size of the buffer; and line 146, \<^verbatim>\<open>strcpy\<close> into the field
  \<^verbatim>\<open>UCHAR ButtonName[64]\<close> of an entry of the table.
\<close>

definition store_string :: "nat \<Rightarrow> string \<Rightarrow> fault + string" where
  "store_string n str = (if length str < n then Inr str else Inl (OutOfBoundsWrite n))"

text \<open>
  Lines 144 to 149: the button is recorded when the first character typed is \<^verbatim>\<open>x\<close> or
  \<^verbatim>\<open>X\<close>. \<^verbatim>\<open>RemoteDataTotal\<close> is used as the index as it is, and the name is copied
  as it is: an index outside the table is a fault, and so is a name that does not fit the
  64 bytes of the field. \<^verbatim>\<open>RemoteDataTotal\<close> is a \<^verbatim>\<open>UINT16\<close> and its increment wraps.
\<close>

definition confirms :: "string \<Rightarrow> bool" where
  "confirms Dum1Str = (case Dum1Str of [] \<Rightarrow> False | ch # _ \<Rightarrow> ch = CHR ''x'' \<or> ch = CHR ''X'')"

definition record_button :: "string \<Rightarrow> string \<Rightarrow> 64 word \<Rightarrow> remote \<Rightarrow> fault + remote" where
  "record_button Dum1Str name data r =
     (if confirms Dum1Str then
        (if unat (RemoteDataTotal r) < length (RemoteData r) then
           bnd (store_string 64 name) (\<lambda>field.
           Inr (r\<lparr>RemoteData :=
                   (RemoteData r)[unat (RemoteDataTotal r) :=
                      \<lparr>ButtonName = field, CommandId = data\<rparr>],
                 RemoteDataTotal := RemoteDataTotal r + 1\<rparr>))
         else Inl (OutOfBoundsWrite (unat (RemoteDataTotal r))))
      else Inr r)"

text \<open>
  What a call leaves behind: the value returned, \<^verbatim>\<open>*IrCommand\<close>, the final
  \<^verbatim>\<open>DataBuffer\<close> and \<^verbatim>\<open>FlagError\<close>, the reports, and the table of buttons.
\<close>

record outcome =
  Returned :: "8 word"
  IrCommand :: "8 word"
  FinalDataBuffer :: "64 word"
  FinalFlagError :: "8 word"
  Printed :: "report list"
  Buttons :: remote

text \<open>The locals as the function initialises them, lines 45 to 48.\<close>

definition initial_locals :: "16 word \<Rightarrow> locals" where
  "initial_locals indeterminate =
     \<lparr>BitNumber = 0, FlagError = FLAG_OFF, Loop2UInt16 = indeterminate,
      DataBuffer = 0, Reports = []\<rparr>"

text \<open>
  \<^verbatim>\<open>decode_ir_command\<close> up to its first \<^verbatim>\<open>return\<close> (line 153); the \<^verbatim>\<open>switch\<close> after it
  is never executed. \<^verbatim>\<open>IR_COMMAND_TO_EXECUTE\<close> is a macro of \<^verbatim>\<open>Samsung.h\<close> and a
  parameter here, \<open>indeterminate\<close> is the value \<^verbatim>\<open>Loop2UInt16\<close> starts with, \<open>Dum1Str\<close>
  the string that \<^verbatim>\<open>input_string\<close> stores (the characters typed before Enter, or the
  character 0x0D for Enter alone), \<open>name\<close> the string in the global \<^verbatim>\<open>ButtonName\<close>.
\<close>

definition decode_ir_command ::
  "8 word \<Rightarrow> 16 word \<Rightarrow> capture \<Rightarrow> string \<Rightarrow> string \<Rightarrow> remote \<Rightarrow> (fault + outcome) option" where
  "decode_ir_command IR_COMMAND_TO_EXECUTE indeterminate c Dum1Str name r =
     (case decode_loop c 0 (initial_locals indeterminate) of
        None \<Rightarrow> None
      | Some (Inl e) \<Rightarrow> Some (Inl e)
      | Some (Inr s) \<Rightarrow>
          Some (bnd (store_string 64 Dum1Str) (\<lambda>line.
                bnd (record_button line name (DataBuffer s) r) (\<lambda>r'.
                Inr \<lparr>Returned = IR_COMMAND_TO_EXECUTE, IrCommand = 0,
                     FinalDataBuffer = DataBuffer s, FinalFlagError = FlagError s,
                     Printed = Reports s @
                       [FinalData (DataBuffer s) (IrStepCount c) NUMBER_OF_STEPS],
                     Buttons = r'\<rparr>))))"

subsection \<open>Bursts for the scenarios\<close>

text \<open>
  The burst a remote sends for a 32-bit word, after the header comment of \<^verbatim>\<open>Samsung.c\<close>
  (lines 9 to 14) and the round-trip property of the spec: a wake-up pair of 4450 and
  4450 microseconds, then for each bit, the most significant first, a low level of 550
  and a high level of 550 (bit 0) or 1675 (bit 1). The repository has no encoder; this one
  builds the inputs of the scenarios.
\<close>

definition encode_bit :: "bool \<Rightarrow> 32 word list" where
  "encode_bit b = [550, if b then 1675 else 550]"

definition encode :: "32 word \<Rightarrow> 32 word list" where
  "encode X = [4450, 4450] @ concat (map (\<lambda>i. encode_bit (bit X (31 - i))) [0..<32])"

text \<open>
  The capture state after \<^verbatim>\<open>init_burst_variables\<close> and a burst with the durations
  \<open>ds\<close>: levels low and high in turn (the line idles high, the first level recorded is
  low), the durations, and the count. The elements after the count keep their reset
  values, 2 for a level and 0 for a duration.
\<close>

definition burst :: "32 word list \<Rightarrow> capture" where
  "burst ds =
     \<lparr>IrFinalValue = replicate MAX_IR_READINGS 0,
      IrInitialValue = replicate MAX_IR_READINGS 0,
      IrLevel = map (\<lambda>i. if even i then 0 else 1) [0..<length ds] @
                replicate (MAX_IR_READINGS - length ds) 2,
      IrResultValue = ds @ replicate (MAX_IR_READINGS - length ds) 0,
      IrStepCount = of_nat (length ds)\<rparr>"



definition no_buttons :: remote where
  "no_buttons =
     \<lparr>RemoteData = replicate 256 \<lparr>ButtonName = [], CommandId = 0\<rparr>, RemoteDataTotal = 0\<rparr>"

text \<open>
  The locals of the decoder after the wake-up pair and \<open>k\<close> data pairs of the burst of
  \<open>X\<close>, when the inner loop never runs: the \<open>k\<close> high bits of \<open>X\<close> have been shifted in.
\<close>

definition after_bits :: "16 word \<Rightarrow> 32 word \<Rightarrow> nat \<Rightarrow> locals" where
  "after_bits g X k =
     \<lparr>BitNumber = of_nat k, FlagError = FLAG_OFF, Loop2UInt16 = g,
      DataBuffer = ucast (drop_bit (32 - k) X), Reports = []\<rparr>"

subsection \<open>Reports and validity\<close>

text \<open>A report of a low level that is too long: the anomaly of a bit.\<close>

definition is_anomaly :: "report \<Rightarrow> bool" where
  "is_anomaly x = (case x of LowLevelError _ _ \<Rightarrow> True | _ \<Rightarrow> False)"

text \<open>
  The error flag of the decoder is on exactly when an anomaly has been reported: the
  invariant of the outer loop.
\<close>

definition flag_tracks_anomaly :: "locals \<Rightarrow> bool" where
  "flag_tracks_anomaly s =
     (FlagError s = (if list_ex is_anomaly (Reports s) then FLAG_ON else FLAG_OFF))"


text \<open>
  The test of line 100 at a step: the duration of the low half or of the high half of the
  pair is above \<^verbatim>\<open>SEPARATOR\<close>.
\<close>

definition sep_at :: "capture \<Rightarrow> nat \<Rightarrow> bool" where
  "sep_at c n = (IrResultValue c ! n > SEPARATOR \<or> IrResultValue c ! (n + 1) > SEPARATOR)"

text \<open>
  The reports that the loop may leave: an end of data at a step at or after the wake-up
  steps and below the count, where the test of line 100 holds; a low level that is too long;
  never the final line, which is printed after the loop.
\<close>

definition report_ok :: "capture \<Rightarrow> report \<Rightarrow> bool" where
  "report_ok c x =
     (case x of
        EndOfData n \<Rightarrow> NUMBER_OF_WAKEUP_STEPS \<le> n \<and> n < unat (IrStepCount c) \<and> sep_at c n
      | LowLevelError _ _ \<Rightarrow> True
      | FinalData _ _ _ \<Rightarrow> False)"

definition loop_reports :: "capture \<Rightarrow> locals \<Rightarrow> bool" where
  "loop_reports c s = list_all (report_ok c) (Reports s)"


text \<open>
  The rounds of the loop at a step at or after the wake-up steps, for a count: the steps
  2, 4, ... below the count. For an odd count the last of them takes its high half at the
  index count.
\<close>

definition rounds :: "capture \<Rightarrow> nat" where
  "rounds c = (unat (IrStepCount c) - 1) div 2"

text \<open>
  The value after the first \<open>m\<close> pairs of data have been folded by lines 84 and 85, each
  by the strict comparison of its high half with the trigger point; and the steps among
  the first \<open>m\<close> rounds where the test of line 100 holds.
\<close>

primrec high_bits :: "capture \<Rightarrow> nat \<Rightarrow> 64 word" where
  "high_bits c 0 = 0"
| "high_bits c (Suc m) =
     push_bit 1 (high_bits c m) +
     (if IrResultValue c ! (2 * m + 3) > TRIGGER_POINT_0_1 then 1 else 0)"

primrec end_steps :: "capture \<Rightarrow> nat \<Rightarrow> nat list" where
  "end_steps c 0 = []"
| "end_steps c (Suc m) = end_steps c m @ (if sep_at c (2 * m + 2) then [2 * m + 2] else [])"

text \<open>
  The locals of the decoder after the wake-up pair and \<open>m\<close> rounds, when the inner loop
  never runs: the pairs with a bit number from 1 to 32 have been folded, the error flag
  is off, and the ends of data reported are those of the rounds.
\<close>

definition after_rounds :: "16 word \<Rightarrow> capture \<Rightarrow> nat \<Rightarrow> locals" where
  "after_rounds g c m =
     \<lparr>BitNumber = of_nat m, FlagError = FLAG_OFF, Loop2UInt16 = g,
      DataBuffer = high_bits c (min m NUMBER_OF_BITS),
      Reports = map EndOfData (end_steps c m)\<rparr>"


section \<open>Properties\<close>

subsection \<open>Accesses within the arrays\<close>

lemma rd_in: "i < length a \<Longrightarrow> rd a i = Inr (a ! i)"
  by (simp add: rd_def)

lemma bnd_Inr: "bnd (Inr v) f = f v"
  by (simp add: bnd_def)

lemma bnd_Inl: "bnd (Inl e) f = Inl e"
  by (simp add: bnd_def)

lemma display_pair_ok:
  "i + 1 < length (IrLevel c) \<Longrightarrow> i + 1 < length (IrResultValue c) \<Longrightarrow> display_pair c i = Inr ()"
  by (simp add: display_pair_def rd_in bnd_Inr)

lemma unat_lt2: "(w :: 16 word) < 2 \<Longrightarrow> unat w < 2"
  by (simp add: word_less_nat_alt)

lemma verify_half_ok:
  assumes "unat l + 1 < length (IrLevel c)" "unat l + 1 < length (IrResultValue c)"
    and "Loop2UInt16 s < 2"
  shows "\<exists>s'. verify_half c l s = Inr s' \<and> Loop2UInt16 s' = Loop2UInt16 s"
proof -
  have "unat l + unat (Loop2UInt16 s) < length (IrLevel c)"
       "unat l + unat (Loop2UInt16 s) < length (IrResultValue c)"
    using assms unat_lt2 [of "Loop2UInt16 s"] by auto
  then show ?thesis
    by (simp add: verify_half_def rd_in bnd_Inr)
qed

lemma verify_pair_ok:
  assumes "unat l + 1 < length (IrLevel c)" "unat l + 1 < length (IrResultValue c)"
  shows "\<exists>s'. verify_pair c l s = Inr s'"
  using assms
proof (induction c l s rule: verify_pair.induct)
  case (1 c l s)
  show ?case
  proof (cases "Loop2UInt16 s < 2")
    case True
    from verify_half_ok [OF "1.prems" True] obtain s1 where
      h: "verify_half c l s = Inr s1" by blast
    from "1.IH" [OF True h "1.prems"] obtain s2 where
      "verify_pair c l (s1\<lparr>Loop2UInt16 := Loop2UInt16 s1 + 1\<rparr>) = Inr s2" by blast
    with True h show ?thesis by simp
  next
    case False
    then show ?thesis by simp
  qed
qed

lemma decode_step_ok:
  assumes "unat l + 1 < length (IrLevel c)" "unat l + 1 < length (IrResultValue c)"
  shows "\<exists>s'. decode_step c l s = Inr s'"
proof -
  have d: "display_pair c (unat l) = Inr ()" using assms by (rule display_pair_ok)
  have r0: "rd (IrResultValue c) (unat l) = Inr (IrResultValue c ! unat l)"
    using assms by (simp add: rd_in)
  have r1: "rd (IrResultValue c) (unat l + 1) = Inr (IrResultValue c ! (unat l + 1))"
    using assms by (simp add: rd_in)
  have f: "\<exists>s1. fold_data_bit c l t = Inr s1" for t
    using r1 by (simp add: fold_data_bit_def d bnd_Inr)
  have e: "display_extra c l t = Inr t" for t
    by (simp add: display_extra_def d bnd_Inr)
  have v: "\<exists>s1. separator_or_verify c l t = Inr s1" for t
    using verify_pair_ok [OF assms, of t] r1
    by (auto simp add: separator_or_verify_def r0 bnd_Inr)
  show ?thesis
  proof (cases "unat l \<ge> NUMBER_OF_WAKEUP_STEPS")
    case True
    obtain s1 where s1: "fold_data_bit c l
       (s\<lparr>BitNumber := of_nat ((unat l - NUMBER_OF_WAKEUP_STEPS) div 2 + 1)\<rparr>) = Inr s1"
      using f by blast
    with True v [of s1] show ?thesis
      by (simp add: decode_step_def bnd_Inr e)
  next
    case False
    then show ?thesis by (simp add: decode_step_def d bnd_Inr)
  qed
qed

lemma unat_plus2: "unat (l :: 16 word) < 65534 \<Longrightarrow> unat (l + 2) = unat l + 2"
  by (simp add: unat_word_ariths)

lemma unat_plus1_16: "unat (w :: 16 word) < 65535 \<Longrightarrow> unat (w + 1) = unat w + 1"
  by (simp add: unat_word_ariths)

lemma decode_loop_ok:
  assumes ok: "capture_arrays_ok c" and n: "unat (IrStepCount c) \<le> MAX_IR_READINGS"
    and ev: "even (unat l)"
  shows "\<exists>s'. decode_loop c l s = Some (Inr s')"
  using ev
proof (induction "unat (IrStepCount c) - unat l" arbitrary: l s rule: less_induct)
  case less
  show ?case
  proof (cases "l < IrStepCount c")
    case False
    then show ?thesis by (subst decode_loop.simps) simp
  next
    case True
    then have lt: "unat l < unat (IrStepCount c)" by (simp add: word_less_nat_alt)
    with n have l500: "unat l < 500" by (simp add: MAX_IR_READINGS_def)
    with less.prems have "unat l + 1 < 500" by presburger
    then have b: "unat l + 1 < length (IrLevel c)" "unat l + 1 < length (IrResultValue c)"
      using ok by (simp_all add: capture_arrays_ok_def MAX_IR_READINGS_def)
    from decode_step_ok [OF b] obtain s1 where s1: "decode_step c l s = Inr s1" by blast
    have u: "unat (l + 2) = unat l + 2" using l500 by (simp add: unat_plus2)
    have "\<exists>s'. decode_loop c (l + 2) s1 = Some (Inr s')"
      by (rule less.hyps) (use u lt less.prems in simp_all)
    then show ?thesis
      by (subst decode_loop.simps) (simp add: True s1)
  qed
qed

subsection \<open>An invariant rule for the outer loop, and the error flag\<close>






lemma flag_tracks_Loop2 [simp]:
  "flag_tracks_anomaly (s\<lparr>Loop2UInt16 := x\<rparr>) = flag_tracks_anomaly s"
  by (simp add: flag_tracks_anomaly_def)

lemma flag_tracks_DataBuffer [simp]:
  "flag_tracks_anomaly (s\<lparr>DataBuffer := x\<rparr>) = flag_tracks_anomaly s"
  by (simp add: flag_tracks_anomaly_def)

lemma flag_tracks_BitNumber [simp]:
  "flag_tracks_anomaly (s\<lparr>BitNumber := x\<rparr>) = flag_tracks_anomaly s"
  by (simp add: flag_tracks_anomaly_def)










subsection \<open>Shifting a bit into a word\<close>

lemma unat_of_nat_small: "n \<le> 32 \<Longrightarrow> unat (of_nat n :: 8 word) = n"
  by (simp add: unsigned_of_nat take_bit_nat_eq_self)

lemma shift_disjoint: "\<not> bit (push_bit 1 (x :: 64 word)) n \<or> \<not> bit (if b then 1 else 0 :: 64 word) n"
  by (cases n) (simp_all add: bit_0 bit_1_iff)

lemma bit0_shift_add:
  "bit (push_bit 1 (x :: 64 word) + (if b then 1 else 0)) 0 = b"
  by (simp add: bit_0)

lemma bitSuc_shift_add:
  "bit (push_bit 1 (x :: 64 word) + (if b then 1 else 0)) (Suc n) = (bit x n \<and> Suc n < 64)"
proof -
  have "push_bit 1 x + (if b then 1 else 0) = push_bit 1 x OR (if b then 1 else 0)"
    by (rule disjunctive_add) (rule shift_disjoint)
  then have "bit (push_bit 1 x + (if b then 1 else 0)) (Suc n) =
             (bit (push_bit 1 x) (Suc n) \<or> bit (if b then 1 else 0 :: 64 word) (Suc n))"
    by (simp only: bit_or_iff)
  also have "\<dots> = bit (push_bit 1 x) (Suc n)" by (simp add: bit_1_iff)
  also have "\<dots> = (bit x n \<and> Suc n < 64)"
    by (simp only: bit_push_bit_iff) (auto simp: possible_bit_word)
  finally show ?thesis .
qed

subsection \<open>The decoder on capture states that agree on a prefix\<close>












subsection \<open>The round trip when the inner loop does not run\<close>

lemma length_pairs: "length (concat (map (\<lambda>i. [a i, b i]) [0..<n])) = 2 * n"
  by (induction n) simp_all

lemma nth_pairs:
  "k < n \<Longrightarrow> concat (map (\<lambda>i. [a i, b i]) [0..<n]) ! (2 * k) = a k \<and>
             concat (map (\<lambda>i. [a i, b i]) [0..<n]) ! (2 * k + 1) = b k"
proof (induction n)
  case 0
  then show ?case by simp
next
  case (Suc n)
  show ?case
  proof (cases "k < n")
    case True
    with Suc.IH show ?thesis by (simp add: nth_append length_pairs)
  next
    case False
    with Suc.prems have "k = n" by simp
    then show ?thesis by (simp add: nth_append length_pairs)
  qed
qed

lemma length_encode: "length (encode X) = 66"
  by (simp add: encode_def encode_bit_def length_pairs)

lemma encode_low: "k < 32 \<Longrightarrow> encode X ! (2 * k + 2) = 550"
  using nth_pairs [of k 32 "\<lambda>i. 550 :: 32 word" "\<lambda>i. if bit X (31 - i) then 1675 else 550"]
  by (simp add: encode_def encode_bit_def)

lemma encode_high: "k < 32 \<Longrightarrow> encode X ! (2 * k + 3) = (if bit X (31 - k) then 1675 else 550)"
  using nth_pairs [of k 32 "\<lambda>i. 550 :: 32 word" "\<lambda>i. if bit X (31 - i) then 1675 else 550"]
  by (simp add: encode_def encode_bit_def numeral_3_eq_3)

lemma shift_in_next_bit:
  assumes "k < 32"
  shows "push_bit 1 (ucast (drop_bit (32 - k) (X :: 32 word)) :: 64 word) +
           (if bit X (31 - k) then 1 else 0) = ucast (drop_bit (31 - k) X)"
proof (rule bit_eqI)
  fix n
  assume "possible_bit TYPE(64 word) n"
  show "bit (push_bit 1 (ucast (drop_bit (32 - k) X) :: 64 word) +
           (if bit X (31 - k) then 1 else 0)) n = bit (ucast (drop_bit (31 - k) X) :: 64 word) n"
  proof (cases n)
    case 0
    then show ?thesis
      by (simp only: bit0_shift_add) (simp add: bit_ucast_iff bit_drop_bit_eq)
  next
    case (Suc m)
    have "32 - k + m = 31 - k + Suc m" using assms by simp
    then show ?thesis unfolding Suc
      by (simp only: bitSuc_shift_add) (auto simp add: bit_ucast_iff bit_drop_bit_eq dest: bit_imp_le_length)
  qed
qed


lemma burst_encode_count: "IrStepCount (burst (encode X)) = 66"
  by (simp add: burst_def length_encode)

lemma burst_encode_lengths:
  "length (IrLevel (burst (encode X))) = 500" "length (IrResultValue (burst (encode X))) = 500"
  by (simp_all add: burst_def length_encode MAX_IR_READINGS_def)

lemma burst_encode_value: "i < 66 \<Longrightarrow> IrResultValue (burst (encode X)) ! i = encode X ! i"
  by (simp add: burst_def length_encode nth_append)

lemma verify_pair_idle: "\<not> Loop2UInt16 s < 2 \<Longrightarrow> verify_pair c l s = Inr s"
  by simp

lemma roundtrip_step:
  assumes l: "unat l = 2 * k + 2" and k: "k < 32" and g: "\<not> g < 2"
  shows "decode_step (burst (encode X)) l (after_bits g X k) = Inr (after_bits g X (Suc k))"
proof -
  let ?c = "burst (encode X)"
  define s where "s = after_bits g X k"
  define bn :: "8 word" where "bn = of_nat ((unat l - NUMBER_OF_WAKEUP_STEPS) div 2 + 1)"
  have bnk: "bn = of_nat (Suc k)"
    unfolding bn_def l by (simp add: NUMBER_OF_WAKEUP_STEPS_def)
  have ubn: "unat bn = Suc k"
    unfolding bnk using k by (intro unat_of_nat_small) simp
  then have bnpos: "0 < bn" and bnle: "unat bn \<le> NUMBER_OF_BITS"
    using k by (simp_all add: word_less_nat_alt NUMBER_OF_BITS_def)
  have lv: "unat l + 1 < length (IrLevel ?c)" and rv: "unat l + 1 < length (IrResultValue ?c)"
    using l k by (simp_all add: burst_encode_lengths)
  have dp: "display_pair ?c (unat l) = Inr ()" using lv rv by (rule display_pair_ok)
  have "2 * k + 2 < 66" "2 * k + 3 < 66" using k by simp_all
  note bv = this [THEN burst_encode_value, of X]
  have d0: "IrResultValue ?c ! unat l = 550"
    unfolding l by (simp only: bv encode_low [OF k])
  have i1: "unat l + 1 = 2 * k + 3" using l by simp
  have d1: "IrResultValue ?c ! (unat l + 1) = (if bit X (31 - k) then 1675 else 550)"
    unfolding i1 by (simp only: bv encode_high [OF k])
  have r0: "rd (IrResultValue ?c) (unat l) = Inr 550"
    using rv d0 by (simp add: rd_in)
  have r1: "rd (IrResultValue ?c) (unat l + 1) = Inr (if bit X (31 - k) then 1675 else 550)"
    using rv d1 by (simp add: rd_in)
  define s1 where "s1 = s\<lparr>BitNumber := bn,
      DataBuffer := push_bit 1 (DataBuffer s) + (if bit X (31 - k) then 1 else 0)\<rparr>"
  have f: "fold_data_bit ?c l (s\<lparr>BitNumber := bn\<rparr>) = Inr s1"
    using bnpos bnle r1 dp
    by (simp add: fold_data_bit_def bnd_Inr s1_def TRIGGER_POINT_0_1_def)
  have e: "display_extra ?c l s1 = Inr s1"
    using bnle by (simp add: display_extra_def s1_def)
  have idle: "\<not> Loop2UInt16 s1 < 2"
    using g by (simp add: s1_def s_def after_bits_def)
  have v: "separator_or_verify ?c l s1 = Inr s1"
    using r0 r1 verify_pair_idle [OF idle]
    by (simp add: separator_or_verify_def bnd_Inr SEPARATOR_def)
  have "decode_step ?c l s =
          bnd (fold_data_bit ?c l (s\<lparr>BitNumber := bn\<rparr>)) (\<lambda>s1.
          bnd (display_extra ?c l s1) (\<lambda>s2. separator_or_verify ?c l s2))"
    unfolding decode_step_def bn_def using l
    by (simp add: NUMBER_OF_WAKEUP_STEPS_def)
  then have st: "decode_step ?c l s = Inr s1" by (simp only: f e v bnd_Inr)
  have "DataBuffer s1 = ucast (drop_bit (31 - k) X)"
    using shift_in_next_bit [OF k, of X] by (simp add: s1_def s_def after_bits_def)
  moreover have "32 - Suc k = 31 - k" by simp
  ultimately have "s1 = after_bits g X (Suc k)"
    by (simp add: s1_def s_def after_bits_def bnk)
  with st show ?thesis by (simp add: s_def)
qed


lemma roundtrip_loop:
  assumes g: "\<not> g < 2" and l: "unat l = 2 * k + 2" and k: "k \<le> 32"
  shows "decode_loop (burst (encode X)) l (after_bits g X k) = Some (Inr (after_bits g X 32))"
  using l k
proof (induction "32 - k" arbitrary: l k rule: less_induct)
  case less
  note L = decode_loop.simps [of "burst (encode X)" l "after_bits g X k"]
  have cmp: "l < IrStepCount (burst (encode X)) \<longleftrightarrow> k < 32"
    using less.prems by (simp add: burst_encode_count word_less_nat_alt)
  show ?case
  proof (cases "k < 32")
    case False
    with less.prems have "k = 32" by simp
    then have e: "after_bits g X k = after_bits g X 32" by simp
    from cmp False have "\<not> l < IrStepCount (burst (encode X))" by simp
    then show ?thesis unfolding L by (simp add: e)
  next
    case True
    note st = roundtrip_step [OF less.prems(1) True g, of X]
    have "unat l < 65534" using less.prems True by simp
    then have u: "unat (l + 2) = 2 * Suc k + 2"
      using less.prems(1) by (simp add: unat_plus2)
    have "decode_loop (burst (encode X)) (l + 2) (after_bits g X (Suc k)) =
          Some (Inr (after_bits g X 32))"
      by (rule less.hyps [OF _ u]) (use True in simp_all)
    with cmp True st show ?thesis by (simp add: L)
  qed
qed

lemma roundtrip_when_inner_loop_idle:
  assumes g: "\<not> g < 2"
  shows "decode_ir_command k g (burst (encode X)) Dum1Str name r =
     Some (bnd (store_string 64 Dum1Str) (\<lambda>line.
           bnd (record_button line name (ucast X) r) (\<lambda>r'.
           Inr \<lparr>Returned = k, IrCommand = 0,
                FinalDataBuffer = ucast X, FinalFlagError = FLAG_OFF,
                Printed = [FinalData (ucast X) 66 NUMBER_OF_STEPS],
                Buttons = r'\<rparr>)))"
proof -
  let ?c = "burst (encode X)"
  have i: "initial_locals g = after_bits g X 0"
    by (simp add: initial_locals_def after_bits_def)
  have dp: "display_pair ?c (unat (0 :: 16 word)) = Inr ()"
    by (rule display_pair_ok) (simp_all add: burst_encode_lengths)
  have st: "decode_step ?c 0 (after_bits g X 0) = Inr (after_bits g X 0)"
    using dp by (simp add: decode_step_def NUMBER_OF_WAKEUP_STEPS_def bnd_Inr)
  have "unat (2 :: 16 word) = 2 * 0 + 2" by simp
  from roundtrip_loop [OF g this, of X]
  have rest: "decode_loop ?c 2 (after_bits g X 0) = Some (Inr (after_bits g X 32))"
    by simp
  have "decode_loop ?c 0 (after_bits g X 0) = Some (Inr (after_bits g X 32))"
    by (subst decode_loop.simps) (simp add: st rest burst_encode_count)
  then show ?thesis
    by (simp add: decode_ir_command_def i after_bits_def burst_encode_count)
qed

subsection \<open>The reports of the loop\<close>

lemma loop_reports_Loop2 [simp]:
  "loop_reports c (s\<lparr>Loop2UInt16 := x\<rparr>) = loop_reports c s"
  by (simp add: loop_reports_def)

lemma loop_reports_DataBuffer [simp]:
  "loop_reports c (s\<lparr>DataBuffer := x\<rparr>) = loop_reports c s"
  by (simp add: loop_reports_def)

lemma loop_reports_BitNumber [simp]:
  "loop_reports c (s\<lparr>BitNumber := x\<rparr>) = loop_reports c s"
  by (simp add: loop_reports_def)











subsection \<open>The decoder when the inner loop does not run\<close>

lemma unat_of_nat_8: "n < 256 \<Longrightarrow> unat (of_nat n :: 8 word) = n"
  by (simp add: unsigned_of_nat take_bit_nat_eq_self)

lemma after_rounds_step:
  assumes g: "\<not> g < 2" and ok: "capture_arrays_ok c"
    and n: "unat (IrStepCount c) \<le> MAX_IR_READINGS"
    and l: "unat l = 2 * m + 2" and lt: "l < IrStepCount c"
  shows "decode_step c l (after_rounds g c m) = Inr (after_rounds g c (Suc m))"
proof -
  define s where "s = after_rounds g c m"
  define bn :: "8 word" where "bn = of_nat ((unat l - NUMBER_OF_WAKEUP_STEPS) div 2 + 1)"
  define d0 where "d0 = IrResultValue c ! (2 * m + 2)"
  define d1 where "d1 = IrResultValue c ! (2 * m + 3)"
  have bnk: "bn = of_nat (Suc m)"
    unfolding bn_def l by (simp add: NUMBER_OF_WAKEUP_STEPS_def)
  from lt have "unat l < unat (IrStepCount c)" by (simp add: word_less_nat_alt)
  with n l have m: "2 * m + 2 < 500" by (simp add: MAX_IR_READINGS_def)
  then have "Suc m < 256" by simp
  then have ubn: "unat bn = Suc m" unfolding bnk by (rule unat_of_nat_8)
  then have bnpos: "0 < bn" by (simp add: word_less_nat_alt)
  have bnle: "unat bn \<le> NUMBER_OF_BITS \<longleftrightarrow> m < 32"
    using ubn by (simp add: NUMBER_OF_BITS_def less_Suc_eq_le Suc_le_eq)
  have i1: "unat l + 1 = 2 * m + 3" using l by simp
  from m have "2 * m + 3 < 500" by presburger
  with i1 have "unat l + 1 < 500" by simp
  then have lv: "unat l + 1 < length (IrLevel c)" and rv: "unat l + 1 < length (IrResultValue c)"
    using ok by (simp_all add: capture_arrays_ok_def MAX_IR_READINGS_def)
  have dp: "display_pair c (unat l) = Inr ()" using lv rv by (rule display_pair_ok)
  have r0: "rd (IrResultValue c) (unat l) = Inr d0"
    using rv l by (simp add: rd_in d0_def)
  have r1: "rd (IrResultValue c) (unat l + 1) = Inr d1"
    using rv unfolding i1 by (simp add: rd_in d1_def)
  define s1 where "s1 = s\<lparr>BitNumber := bn,
      DataBuffer := (if m < 32
                     then push_bit 1 (DataBuffer s) + (if d1 > TRIGGER_POINT_0_1 then 1 else 0)
                     else DataBuffer s)\<rparr>"
  have f: "fold_data_bit c l (s\<lparr>BitNumber := bn\<rparr>) = Inr s1"
  proof (cases "m < 32")
    case True
    with bnle have "unat bn \<le> NUMBER_OF_BITS" by simp
    with True bnpos r1 dp show ?thesis by (simp add: fold_data_bit_def bnd_Inr s1_def)
  next
    case False
    with bnle have "\<not> unat bn \<le> NUMBER_OF_BITS" by simp
    with False show ?thesis by (simp add: fold_data_bit_def s1_def)
  qed
  have e: "display_extra c l s1 = Inr s1"
    using dp by (simp add: display_extra_def bnd_Inr)
  have idle: "\<not> Loop2UInt16 s1 < 2"
    using g by (simp add: s1_def s_def after_rounds_def)
  define s2 where "s2 = (if sep_at c (2 * m + 2)
                         then s1\<lparr>Reports := Reports s1 @ [EndOfData (2 * m + 2)]\<rparr> else s1)"
  have e3: "2 * m + 2 + 1 = 2 * m + 3" by simp
  have sp: "sep_at c (2 * m + 2) \<longleftrightarrow> d0 > SEPARATOR \<or> d1 > SEPARATOR"
    unfolding sep_at_def d0_def d1_def e3 by (rule refl)
  have v: "separator_or_verify c l s1 = Inr s2"
  proof (cases "d0 > SEPARATOR")
    case True
    with sp have "sep_at c (2 * m + 2)" by simp
    with True r0 l show ?thesis by (simp add: separator_or_verify_def bnd_Inr s2_def)
  next
    case n0: False
    show ?thesis
    proof (cases "d1 > SEPARATOR")
      case True
      with sp have "sep_at c (2 * m + 2)" by simp
      with True n0 r0 r1 l show ?thesis by (simp add: separator_or_verify_def bnd_Inr s2_def)
    next
      case False
      with n0 sp have "\<not> sep_at c (2 * m + 2)" by simp
      with False n0 r0 r1 verify_pair_idle [OF idle] show ?thesis
        by (simp add: separator_or_verify_def bnd_Inr s2_def)
    qed
  qed
  have "decode_step c l s =
          bnd (fold_data_bit c l (s\<lparr>BitNumber := bn\<rparr>)) (\<lambda>s1.
          bnd (display_extra c l s1) (\<lambda>s2. separator_or_verify c l s2))"
    unfolding decode_step_def bn_def using l
    by (simp add: NUMBER_OF_WAKEUP_STEPS_def)
  then have st: "decode_step c l s = Inr s2" by (simp only: f e v bnd_Inr)
  have hb: "high_bits c (min (Suc m) NUMBER_OF_BITS) =
        (if m < 32
         then push_bit 1 (high_bits c (min m NUMBER_OF_BITS)) +
              (if d1 > TRIGGER_POINT_0_1 then 1 else 0)
         else high_bits c (min m NUMBER_OF_BITS))"
  proof (cases "m < 32")
    case True
    then have "min (Suc m) NUMBER_OF_BITS = Suc m" "min m NUMBER_OF_BITS = m"
      by (simp_all add: NUMBER_OF_BITS_def)
    with True show ?thesis by (simp add: d1_def)
  next
    case False
    then have "min (Suc m) NUMBER_OF_BITS = 32" "min m NUMBER_OF_BITS = 32"
      by (simp_all add: NUMBER_OF_BITS_def)
    with False show ?thesis by simp
  qed
  have "s2 = after_rounds g c (Suc m)"
    unfolding after_rounds_def hb
    by (simp add: s2_def s1_def s_def after_rounds_def bnk)
  with st show ?thesis by (simp add: s_def)
qed

lemma after_rounds_loop:
  assumes g: "\<not> g < 2" and ok: "capture_arrays_ok c"
    and n: "unat (IrStepCount c) \<le> MAX_IR_READINGS"
    and l: "unat l = 2 * m + 2" and m: "m \<le> rounds c"
  shows "decode_loop c l (after_rounds g c m) = Some (Inr (after_rounds g c (rounds c)))"
  using l m
proof (induction "rounds c - m" arbitrary: l m rule: less_induct)
  case less
  note L = decode_loop.simps [of c l "after_rounds g c m"]
  have "unat l < unat (IrStepCount c) \<longleftrightarrow> m < rounds c"
    unfolding less.prems(1) rounds_def by presburger
  then have cmp: "l < IrStepCount c \<longleftrightarrow> m < rounds c"
    by (simp add: word_less_nat_alt)
  show ?case
  proof (cases "m < rounds c")
    case False
    with less.prems have "m = rounds c" by simp
    then have e: "after_rounds g c m = after_rounds g c (rounds c)" by simp
    from cmp False have "\<not> l < IrStepCount c" by simp
    then show ?thesis unfolding L by (simp add: e)
  next
    case True
    with cmp have lt: "l < IrStepCount c" by simp
    note st = after_rounds_step [OF g ok n less.prems(1) lt]
    from lt have "unat l < unat (IrStepCount c)" by (simp add: word_less_nat_alt)
    with n have "unat l < 65534" by (simp add: MAX_IR_READINGS_def)
    then have u: "unat (l + 2) = 2 * Suc m + 2"
      using less.prems(1) by (simp add: unat_plus2)
    have "decode_loop c (l + 2) (after_rounds g c (Suc m)) =
          Some (Inr (after_rounds g c (rounds c)))"
      by (rule less.hyps [OF _ u]) (use True in simp_all)
    with lt st show ?thesis by (simp add: L)
  qed
qed

lemma decode_loop_idle:
  assumes g: "\<not> g < 2" and ok: "capture_arrays_ok c"
    and n: "unat (IrStepCount c) \<le> MAX_IR_READINGS"
  shows "decode_loop c 0 (initial_locals g) = Some (Inr (after_rounds g c (rounds c)))"
proof -
  have i: "initial_locals g = after_rounds g c 0"
    by (simp add: initial_locals_def after_rounds_def)
  note L = decode_loop.simps [of c 0 "after_rounds g c 0"]
  show ?thesis
  proof (cases "0 < IrStepCount c")
    case False
    then have "unat (IrStepCount c) = 0" by (simp add: word_less_nat_alt)
    then have "rounds c = 0" by (simp add: rounds_def)
    with False show ?thesis unfolding i L by simp
  next
    case True
    have "(1 :: nat) < 500" by simp
    then have "unat (0 :: 16 word) + 1 < length (IrLevel c)"
              "unat (0 :: 16 word) + 1 < length (IrResultValue c)"
      using ok by (simp_all add: capture_arrays_ok_def MAX_IR_READINGS_def)
    then have dp: "display_pair c (unat (0 :: 16 word)) = Inr ()" by (rule display_pair_ok)
    have st: "decode_step c 0 (after_rounds g c 0) = Inr (after_rounds g c 0)"
      using dp by (simp add: decode_step_def NUMBER_OF_WAKEUP_STEPS_def bnd_Inr)
    have "unat (2 :: 16 word) = 2 * 0 + 2" by simp
    from after_rounds_loop [OF g ok n this]
    have rest: "decode_loop c 2 (after_rounds g c 0) = Some (Inr (after_rounds g c (rounds c)))"
      by simp
    show ?thesis unfolding i L using True st rest by simp
  qed
qed

lemma bit_high_bits:
  "m \<le> 64 \<Longrightarrow> j < m \<Longrightarrow>
   bit (high_bits c m) j \<longleftrightarrow> IrResultValue c ! (2 * (m - 1 - j) + 3) > TRIGGER_POINT_0_1"
proof (induction m arbitrary: j)
  case 0
  then show ?case by simp
next
  case (Suc m)
  show ?case
  proof (cases j)
    case 0
    show ?thesis unfolding 0 high_bits.simps by (simp only: bit0_shift_add) simp
  next
    case (Suc i)
    with Suc.prems have i: "i < m" "m \<le> 64" "Suc i < 64" by simp_all
    have "Suc m - 1 - Suc i = m - 1 - i" by simp
    with Suc.IH [OF i(2) i(1)] i(3) show ?thesis
      unfolding Suc high_bits.simps by (simp only: bitSuc_shift_add) simp
  qed
qed

lemma bit_decision_when_inner_loop_idle:
  assumes g: "\<not> g < 2" and ok: "capture_arrays_ok c"
    and n: "unat (IrStepCount c) \<le> MAX_IR_READINGS"
    and j: "j < min (rounds c) NUMBER_OF_BITS"
  shows "\<exists>s. decode_loop c 0 (initial_locals g) = Some (Inr s) \<and>
             (bit (DataBuffer s) (min (rounds c) NUMBER_OF_BITS - 1 - j) \<longleftrightarrow>
              IrResultValue c ! (2 * j + 3) > TRIGGER_POINT_0_1)"
proof -
  define m where "m = min (rounds c) NUMBER_OF_BITS"
  have m64: "m \<le> 64" by (simp add: m_def NUMBER_OF_BITS_def)
  from j have jm: "j < m" by (simp add: m_def)
  then have i: "m - 1 - j < m" by simp
  from jm have e: "m - 1 - (m - 1 - j) = j" by simp
  from bit_high_bits [OF m64 i, of c]
  have "bit (high_bits c m) (m - 1 - j) \<longleftrightarrow> IrResultValue c ! (2 * j + 3) > TRIGGER_POINT_0_1"
    unfolding e .
  moreover have "DataBuffer (after_rounds g c (rounds c)) = high_bits c m"
    by (simp add: after_rounds_def m_def)
  ultimately show ?thesis
    using decode_loop_idle [OF g ok n] unfolding m_def by simp
qed

subsection \<open>What a call that returns leaves behind\<close>


subsection \<open>Capture at the capacity of the arrays\<close>

text \<open>
  C3. The claim: once the count reaches the capacity \<^verbatim>\<open>MAX_IR_READINGS\<close> = 500 the
  handler stops appending, marks the burst as overflowed and writes to no index at or
  above 500. The handler has no such test. With 500 events recorded, a rising edge on
  \<^verbatim>\<open>IR_RX\<close> stores the timer in \<^verbatim>\<open>IrFinalValue[500]\<close>; and already the edge that
  records event number 500 (count 499 before it) stores the start of the next level in
  \<^verbatim>\<open>IrInitialValue[500]\<close>. Both are writes past the last element, index 499.
\<close>

theorem isr_signal_trap_writes_past_capacity:
  "isr_signal_trap 8 4 IR_RX 8 (1000, 1001) (0, 0)
     ((init_burst_variables c)\<lparr>IrStepCount := 500\<rparr>) = Inl (OutOfBoundsWrite 500) \<and>
   isr_signal_trap 8 4 IR_RX 8 (1000, 1001) (0, 0)
     ((init_burst_variables c)\<lparr>IrStepCount := 499\<rparr>) = Inl (OutOfBoundsWrite 500)"
  by (simp add: isr_signal_trap_def rise_branch_def close_level_def open_level_def
      init_burst_variables_def bnd_def rd_def wr_def MAX_IR_READINGS_def IR_RX_def)

subsection \<open>Termination of the decoder\<close>

text \<open>
  C9. For every capture state whose arrays have \<^verbatim>\<open>MAX_IR_READINGS\<close> elements and whose
  count is at most \<^verbatim>\<open>MAX_IR_READINGS\<close>, the outer loop of the decoder ends, and it ends
  without a fault: the index is even and below the count, so it and its successor are
  below 500, and adding 2 to it does not wrap. The inner loop is total by its definition
  (it ends after at most two rounds). Hence \<^verbatim>\<open>decode_ir_command\<close> returns, whatever the
  indeterminate start of \<^verbatim>\<open>Loop2UInt16\<close> and the line typed are.
\<close>

theorem decode_ir_command_terminates:
  assumes "capture_arrays_ok c" and "unat (IrStepCount c) \<le> MAX_IR_READINGS"
  shows "(\<exists>s'. decode_loop c 0 (initial_locals g) = Some (Inr s')) \<and>
         (\<exists>out. decode_ir_command k g c Dum1Str name r = Some out)"
proof -
  from decode_loop_ok [OF assms, of 0 "initial_locals g"]
  obtain s' where s': "decode_loop c 0 (initial_locals g) = Some (Inr s')" by auto
  then show ?thesis by (simp add: decode_ir_command_def)
qed

text \<open>The theorem at a full buffer: 500 events of 550 microseconds.\<close>

theorem decode_ir_command_terminates_witness:
  "capture_arrays_ok (burst (replicate 500 550)) \<and>
   unat (IrStepCount (burst (replicate 500 550))) \<le> MAX_IR_READINGS \<and>
   (\<exists>s'. decode_loop (burst (replicate 500 550)) 0 (initial_locals 0) = Some (Inr s')) \<and>
   (\<exists>out. decode_ir_command 7 0 (burst (replicate 500 550)) ''x'' ''Power'' no_buttons = Some out)"
proof -
  have a: "capture_arrays_ok (burst (replicate 500 550))"
    by (simp add: capture_arrays_ok_def burst_def MAX_IR_READINGS_def)
  have b: "unat (IrStepCount (burst (replicate 500 550))) \<le> MAX_IR_READINGS"
    by (simp add: burst_def MAX_IR_READINGS_def)
  from a b decode_ir_command_terminates [OF a b, of 0 7 "''x''" "''Power''" no_buttons]
  show ?thesis by simp
qed

subsection \<open>The indeterminate start of the inner loop\<close>

text \<open>
  C1. The claim: decoding the burst that encodes a 32-bit word \<open>X\<close> gives \<open>X\<close> back, with
  no error and no report; for the Samsung scenario, \<open>0xE0E040BF\<close>. The decoder gives
  \<open>X\<close> only when the inner loop never runs. \<^verbatim>\<open>Loop2UInt16\<close> is never assigned before
  the test \<^verbatim>\<open>Loop2UInt16 < 2\<close>; when it happens to hold 0, the inner loop runs on the
  first data pair and shifts \<^verbatim>\<open>DataBuffer\<close> a second time for its high half, so the word
  becomes \<open>0x1E0E040BF\<close>: the first bit is counted twice. When the variable holds 2 or
  more, the round trip holds for every word (lemma \<open>roundtrip_when_inner_loop_idle\<close>).
\<close>

theorem roundtrip_fails_when_inner_loop_runs:
  "decode_ir_command 7 0 (burst (encode 0xE0E040BF)) [CHR 0x0D] ''Power'' no_buttons =
     Some (Inr \<lparr>Returned = 7, IrCommand = 0, FinalDataBuffer = 0x1E0E040BF,
                FinalFlagError = FLAG_OFF, Printed = [FinalData 0x1E0E040BF 66 135],
                Buttons = no_buttons\<rparr>)"
  by code_simp

text \<open>
  C4. The claim: two decodings of the same buffer give the same result. The result is a
  function of the buffer and of the value \<^verbatim>\<open>Loop2UInt16\<close> holds when the function is
  entered, which is not an input of the function and is not set by it: the same burst
  decodes to two different results when that value is 0 and when it is 2.
\<close>

theorem decode_depends_on_indeterminate_value:
  "decode_ir_command 7 0 (burst (encode 0xE0E040BF)) [CHR 0x0D] ''Power'' no_buttons \<noteq>
   decode_ir_command 7 2 (burst (encode 0xE0E040BF)) [CHR 0x0D] ''Power'' no_buttons"
  by code_simp

text \<open>
  C7. The claim: the accumulator is shifted at most 32 times, so the value is below
  \<open>2 ^ 32\<close>. The test on the bit number bounds the shifts of lines 84 and 85 only; the
  inner loop (line 122) shifts the 64-bit \<^verbatim>\<open>DataBuffer\<close> again. With \<^verbatim>\<open>Loop2UInt16\<close>
  starting at 1, the burst of \<open>0xE0E0D827\<close> is shifted 33 times and decodes to a value
  of 33 bits.
\<close>

theorem value_exceeds_32_bits:
  "decode_ir_command 7 1 (burst (encode 0xE0E0D827)) [CHR 0x0D] ''TV'' no_buttons =
     Some (Inr \<lparr>Returned = 7, IrCommand = 0, FinalDataBuffer = 0x1E0E0D827,
                FinalFlagError = FLAG_OFF, Printed = [FinalData 0x1E0E0D827 66 135],
                Buttons = no_buttons\<rparr>) \<and>
   \<not> (0x1E0E0D827 :: 64 word) < 2 ^ NUMBER_OF_BITS"
  by code_simp

subsection \<open>After the loop\<close>




subsection \<open>Recording a button\<close>

text \<open>
  C10. When the line typed starts with \<^verbatim>\<open>x\<close> or \<^verbatim>\<open>X\<close> (and fits the 64 bytes of
  \<^verbatim>\<open>Dum1Str\<close>), \<^verbatim>\<open>decode_ir_command\<close> stores the button name and the decoded value in
  \<^verbatim>\<open>RemoteData[RemoteDataTotal]\<close> and adds one to \<^verbatim>\<open>RemoteDataTotal\<close>, and compares the
  index with nothing, neither with the 256 elements of the array nor with
  \<^verbatim>\<open>MAX_BUTTONS\<close>: with \<^verbatim>\<open>RemoteDataTotal\<close> at 256 or above the write is past the end
  of the array. The write is inside the array only when \<^verbatim>\<open>RemoteDataTotal\<close> is below
  256; it then stays inside the entry exactly when the name has fewer than 64 characters,
  since \<^verbatim>\<open>strcpy\<close> checks no length either. When the entry is written, the new total is
  the old one plus one, without wrapping.
\<close>

theorem confirmed_decode_records_unchecked:
  assumes run: "decode_loop c 0 (initial_locals g) = Some (Inr s)"
    and x: "confirms Dum1Str"
    and fits: "length Dum1Str < 64"
    and len: "length (RemoteData r) = 256"
  shows "decode_ir_command k g c Dum1Str name r =
     Some (if unat (RemoteDataTotal r) < 256
           then (if length name < 64
                 then Inr \<lparr>Returned = k, IrCommand = 0,
                     FinalDataBuffer = DataBuffer s, FinalFlagError = FlagError s,
                     Printed = Reports s @
                       [FinalData (DataBuffer s) (IrStepCount c) NUMBER_OF_STEPS],
                     Buttons = r\<lparr>RemoteData := (RemoteData r)[unat (RemoteDataTotal r) :=
                                    \<lparr>ButtonName = name, CommandId = DataBuffer s\<rparr>],
                                 RemoteDataTotal := RemoteDataTotal r + 1\<rparr>\<rparr>
                 else Inl (OutOfBoundsWrite 64))
           else Inl (OutOfBoundsWrite (unat (RemoteDataTotal r)))) \<and>
     (unat (RemoteDataTotal r) < 256 \<longrightarrow>
        unat (RemoteDataTotal r + 1) = unat (RemoteDataTotal r) + 1)"
proof (rule conjI)
  have line: "store_string 64 Dum1Str = Inr Dum1Str"
    using fits by (simp add: store_string_def)
  show "decode_ir_command k g c Dum1Str name r =
     Some (if unat (RemoteDataTotal r) < 256
           then (if length name < 64
                 then Inr \<lparr>Returned = k, IrCommand = 0,
                     FinalDataBuffer = DataBuffer s, FinalFlagError = FlagError s,
                     Printed = Reports s @
                       [FinalData (DataBuffer s) (IrStepCount c) NUMBER_OF_STEPS],
                     Buttons = r\<lparr>RemoteData := (RemoteData r)[unat (RemoteDataTotal r) :=
                                    \<lparr>ButtonName = name, CommandId = DataBuffer s\<rparr>],
                                 RemoteDataTotal := RemoteDataTotal r + 1\<rparr>\<rparr>
                 else Inl (OutOfBoundsWrite 64))
           else Inl (OutOfBoundsWrite (unat (RemoteDataTotal r))))"
  proof (cases "unat (RemoteDataTotal r) < 256")
    case False
    with run x len line show ?thesis
      by (simp add: decode_ir_command_def record_button_def bnd_def)
  next
    case True
    show ?thesis
    proof (cases "length name < 64")
      case False
      with True run x len line show ?thesis
        by (simp add: decode_ir_command_def record_button_def store_string_def bnd_def)
    next
      case nm: True
      then have "store_string 64 name = Inr name" by (simp add: store_string_def)
      with True nm run x len line show ?thesis
        by (simp add: decode_ir_command_def record_button_def bnd_def)
    qed
  qed
  show "unat (RemoteDataTotal r) < 256 \<longrightarrow>
        unat (RemoteDataTotal r + 1) = unat (RemoteDataTotal r) + 1"
    by (simp add: unat_plus1_16)
qed

text \<open>
  The theorem with 200 buttons recorded already, more than \<^verbatim>\<open>MAX_BUTTONS\<close>: the entry
  200 is written and the total becomes 201.
\<close>

theorem confirmed_decode_records_unchecked_witness:
  "decode_loop (burst (encode 0xE0E040BF)) 0 (initial_locals 2) =
     Some (Inr \<lparr>BitNumber = 32, FlagError = FLAG_OFF, Loop2UInt16 = 2,
                DataBuffer = 0xE0E040BF, Reports = []\<rparr>) \<and>
   confirms ''X'' \<and>
   length ''X'' < 64 \<and>
   length (RemoteData (no_buttons\<lparr>RemoteDataTotal := 200\<rparr>)) = 256 \<and>
   decode_ir_command 7 2 (burst (encode 0xE0E040BF)) ''X'' ''Power''
       (no_buttons\<lparr>RemoteDataTotal := 200\<rparr>) =
     Some (Inr \<lparr>Returned = 7, IrCommand = 0,
                FinalDataBuffer = 0xE0E040BF, FinalFlagError = FLAG_OFF,
                Printed = [FinalData 0xE0E040BF (IrStepCount (burst (encode 0xE0E040BF)))
                             NUMBER_OF_STEPS],
                Buttons = \<lparr>RemoteData = (RemoteData no_buttons)[200 :=
                                \<lparr>ButtonName = ''Power'', CommandId = 0xE0E040BF\<rparr>],
                            RemoteDataTotal = 201\<rparr>\<rparr>) \<and>
   unat (201 :: 16 word) = unat (200 :: 16 word) + 1 \<and>
   MAX_BUTTONS \<le> 200"
proof -
  have run: "decode_loop (burst (encode 0xE0E040BF)) 0 (initial_locals 2) =
     Some (Inr \<lparr>BitNumber = 32, FlagError = FLAG_OFF, Loop2UInt16 = 2,
                DataBuffer = 0xE0E040BF, Reports = []\<rparr>)"
    by code_simp
  have x: "confirms ''X''" by (simp add: confirms_def)
  have fits: "length ''X'' < 64" by simp
  have len: "length (RemoteData (no_buttons\<lparr>RemoteDataTotal := 200\<rparr>)) = 256"
    by (simp add: no_buttons_def)
  note t = confirmed_decode_records_unchecked [OF run x fits len, of 7 "''Power''"]
  from t have a: "decode_ir_command 7 2 (burst (encode 0xE0E040BF)) ''X'' ''Power''
       (no_buttons\<lparr>RemoteDataTotal := 200\<rparr>) =
     Some (Inr \<lparr>Returned = 7, IrCommand = 0,
                FinalDataBuffer = 0xE0E040BF, FinalFlagError = FLAG_OFF,
                Printed = [FinalData 0xE0E040BF (IrStepCount (burst (encode 0xE0E040BF)))
                             NUMBER_OF_STEPS],
                Buttons = \<lparr>RemoteData = (RemoteData no_buttons)[200 :=
                                \<lparr>ButtonName = ''Power'', CommandId = 0xE0E040BF\<rparr>],
                            RemoteDataTotal = 201\<rparr>\<rparr>)"
    by simp
  from t have b: "unat (201 :: 16 word) = unat (200 :: 16 word) + 1" by simp
  have m: "MAX_BUTTONS \<le> 200" by (simp add: MAX_BUTTONS_def)
  from run x fits len a b m show ?thesis by (intro conjI)
qed

subsection \<open>The decision of a bit\<close>

text \<open>
  C6. The claim: the bit of a pair is 1 exactly when the duration of its high half is
  strictly above the trigger point of 750 microseconds; a duration of exactly 750 gives 0,
  and the low half does not enter. Lines 84 and 85 decide the bit in this way, and when the
  inner loop does not run the value is made of these bits alone, for every capture state
  (lemmas \<open>decode_loop_idle\<close> and \<open>bit_decision_when_inner_loop_idle\<close>). When
  \<^verbatim>\<open>Loop2UInt16\<close> holds 0 or 1 on entry, the inner loop runs on the first pair of data:
  line 122 shifts the value once more and line 125 adds one only for a high half between
  750 and 3000. For a first pair of 550 and 5000 microseconds the value is 2, binary 10:
  two bits for one pair, the last of them 0 for a high half above the trigger point. With
  \<^verbatim>\<open>Loop2UInt16\<close> at 2 the same burst gives the value 1.
\<close>

theorem inner_loop_folds_the_high_half_again:
  "decode_ir_command 7 1 (burst [4450, 4450, 550, 5000]) [CHR 0x0D] ''Power'' no_buttons =
     Some (Inr \<lparr>Returned = 7, IrCommand = 0, FinalDataBuffer = 2,
                FinalFlagError = FLAG_OFF, Printed = [FinalData 2 4 135],
                Buttons = no_buttons\<rparr>) \<and>
   IrResultValue (burst [4450, 4450, 550, 5000]) ! 3 > TRIGGER_POINT_0_1 \<and>
   \<not> bit (2 :: 64 word) 0 \<and>
   decode_ir_command 7 2 (burst [4450, 4450, 550, 5000]) [CHR 0x0D] ''Power'' no_buttons =
     Some (Inr \<lparr>Returned = 7, IrCommand = 0, FinalDataBuffer = 1,
                FinalFlagError = FLAG_OFF, Printed = [FinalData 1 4 135],
                Buttons = no_buttons\<rparr>)"
proof (intro conjI)
  show "decode_ir_command 7 1 (burst [4450, 4450, 550, 5000]) [CHR 0x0D] ''Power'' no_buttons =
     Some (Inr \<lparr>Returned = 7, IrCommand = 0, FinalDataBuffer = 2,
                FinalFlagError = FLAG_OFF, Printed = [FinalData 2 4 135],
                Buttons = no_buttons\<rparr>)"
    by code_simp
  show "IrResultValue (burst [4450, 4450, 550, 5000]) ! 3 > TRIGGER_POINT_0_1"
    by (simp add: burst_def TRIGGER_POINT_0_1_def)
  show "\<not> bit (2 :: 64 word) 0" by simp
  show "decode_ir_command 7 2 (burst [4450, 4450, 550, 5000]) [CHR 0x0D] ''Power'' no_buttons =
     Some (Inr \<lparr>Returned = 7, IrCommand = 0, FinalDataBuffer = 1,
                FinalFlagError = FLAG_OFF, Printed = [FinalData 1 4 135],
                Buttons = no_buttons\<rparr>)"
    by code_simp
qed

subsection \<open>A duration above the separator\<close>

text \<open>
  C2. The claim: when the low or the high duration of a pair exceeds \<^verbatim>\<open>SEPARATOR\<close>, the
  decoder records the end of data at that step and leaves the bit loop, so that neither
  this pair nor any later one is folded into the value. The code prints the end of data
  (line 102) and goes on: lines 82 to 89 have folded the pair already, and no \<^verbatim>\<open>break\<close>
  follows. In the scenario of the spec, with 15000 microseconds in the third pair (step 4)
  of a burst of 8 steps, the value is 7: the bit before the separator, the separator pair
  and the pair after it. The bit before the separator alone gives 1, as decoding the
  first 4 steps shows.
\<close>

theorem separator_does_not_stop_the_loop:
  "decode_ir_command 7 2 (burst [4450, 4450, 550, 1675, 550, 15000, 550, 1675])
       [CHR 0x0D] ''Power'' no_buttons =
     Some (Inr \<lparr>Returned = 7, IrCommand = 0, FinalDataBuffer = 7,
                FinalFlagError = FLAG_OFF, Printed = [EndOfData 4, FinalData 7 8 135],
                Buttons = no_buttons\<rparr>) \<and>
   decode_ir_command 7 2 ((burst [4450, 4450, 550, 1675, 550, 15000, 550, 1675])
         \<lparr>IrStepCount := 4\<rparr>) [CHR 0x0D] ''Power'' no_buttons =
     Some (Inr \<lparr>Returned = 7, IrCommand = 0, FinalDataBuffer = 1,
                FinalFlagError = FLAG_OFF, Printed = [FinalData 1 4 135],
                Buttons = no_buttons\<rparr>)"
  by code_simp

text \<open>
  C2 as amended: for every step at or past the wake-up steps whose low or high duration
  exceeds \<^verbatim>\<open>SEPARATOR\<close>, the decoder reports the end of data at that step and skips the
  inner loop for that pair; it does not leave the bit loop. The pair is folded into the
  value as any other pair when its bit number is 1 to 32, and the scan continues with the
  next pair.
\<close>

theorem separator_is_reported_and_scan_continues:
  assumes lt: "l < IrStepCount c" and lo: "NUMBER_OF_WAKEUP_STEPS \<le> unat l"
    and lv: "unat l + 1 < length (IrLevel c)" and rv: "unat l + 1 < length (IrResultValue c)"
    and sep: "IrResultValue c ! unat l > SEPARATOR \<or> IrResultValue c ! (unat l + 1) > SEPARATOR"
  shows "decode_loop c l s =
         decode_loop c (l + 2)
           (s\<lparr>BitNumber := of_nat ((unat l - NUMBER_OF_WAKEUP_STEPS) div 2 + 1),
              DataBuffer :=
                (if 0 < (of_nat ((unat l - NUMBER_OF_WAKEUP_STEPS) div 2 + 1) :: 8 word) \<and>
                    unat (of_nat ((unat l - NUMBER_OF_WAKEUP_STEPS) div 2 + 1) :: 8 word)
                      \<le> NUMBER_OF_BITS
                 then push_bit 1 (DataBuffer s) +
                      (if IrResultValue c ! (unat l + 1) > TRIGGER_POINT_0_1 then 1 else 0)
                 else DataBuffer s),
              Reports := Reports s @ [EndOfData (unat l)]\<rparr>)"
proof -
  define bn :: "8 word" where "bn = of_nat ((unat l - NUMBER_OF_WAKEUP_STEPS) div 2 + 1)"
  define d0 where "d0 = IrResultValue c ! unat l"
  define d1 where "d1 = IrResultValue c ! (unat l + 1)"
  define s1 where "s1 = s\<lparr>BitNumber := bn,
      DataBuffer := (if 0 < bn \<and> unat bn \<le> NUMBER_OF_BITS
                     then push_bit 1 (DataBuffer s) + (if d1 > TRIGGER_POINT_0_1 then 1 else 0)
                     else DataBuffer s)\<rparr>"
  have dp: "display_pair c (unat l) = Inr ()" using lv rv by (rule display_pair_ok)
  have r0: "rd (IrResultValue c) (unat l) = Inr d0"
    using rv by (simp add: rd_in d0_def)
  have r1: "rd (IrResultValue c) (unat l + 1) = Inr d1"
    using rv by (simp add: rd_in d1_def)
  have f: "fold_data_bit c l (s\<lparr>BitNumber := bn\<rparr>) = Inr s1"
  proof (cases "0 < bn \<and> unat bn \<le> NUMBER_OF_BITS")
    case True
    then show ?thesis using r1 dp by (simp add: fold_data_bit_def bnd_Inr s1_def)
  next
    case False
    then show ?thesis by (auto simp add: fold_data_bit_def s1_def)
  qed
  have e: "display_extra c l s1 = Inr s1"
    using dp by (simp add: display_extra_def bnd_Inr)
  have v: "separator_or_verify c l s1 = Inr (s1\<lparr>Reports := Reports s1 @ [EndOfData (unat l)]\<rparr>)"
  proof (cases "d0 > SEPARATOR")
    case True
    then show ?thesis using r0 by (simp add: separator_or_verify_def bnd_Inr)
  next
    case False
    with sep have "d1 > SEPARATOR" by (simp add: d0_def d1_def)
    with False show ?thesis using r0 r1 by (simp add: separator_or_verify_def bnd_Inr)
  qed
  have "decode_step c l s =
          bnd (fold_data_bit c l (s\<lparr>BitNumber := bn\<rparr>)) (\<lambda>s1.
          bnd (display_extra c l s1) (\<lambda>s2. separator_or_verify c l s2))"
    unfolding decode_step_def bn_def by (simp only: lo if_True)
  then have st: "decode_step c l s = Inr (s1\<lparr>Reports := Reports s1 @ [EndOfData (unat l)]\<rparr>)"
    by (simp only: f e v bnd_Inr)
  have eq: "s1\<lparr>Reports := Reports s1 @ [EndOfData (unat l)]\<rparr> =
        s\<lparr>BitNumber := bn,
          DataBuffer :=
            (if 0 < bn \<and> unat bn \<le> NUMBER_OF_BITS
             then push_bit 1 (DataBuffer s) + (if d1 > TRIGGER_POINT_0_1 then 1 else 0)
             else DataBuffer s),
          Reports := Reports s @ [EndOfData (unat l)]\<rparr>"
    by (simp add: s1_def)
  have "decode_loop c l s =
        decode_loop c (l + 2) (s1\<lparr>Reports := Reports s1 @ [EndOfData (unat l)]\<rparr>)"
    by (subst decode_loop.simps) (simp only: lt if_True st sum.case)
  then show ?thesis
    unfolding eq bn_def d1_def .
qed

text \<open>The theorem at step 4 of the scenario, in the state that step 2 leaves.\<close>

theorem separator_is_reported_and_scan_continues_witness:
  "(4 :: 16 word) < IrStepCount (burst [4450, 4450, 550, 1675, 550, 15000, 550, 1675]) \<and>
   NUMBER_OF_WAKEUP_STEPS \<le> unat (4 :: 16 word) \<and>
   unat (4 :: 16 word) + 1 <
     length (IrLevel (burst [4450, 4450, 550, 1675, 550, 15000, 550, 1675])) \<and>
   unat (4 :: 16 word) + 1 <
     length (IrResultValue (burst [4450, 4450, 550, 1675, 550, 15000, 550, 1675])) \<and>
   IrResultValue (burst [4450, 4450, 550, 1675, 550, 15000, 550, 1675]) ! (unat (4 :: 16 word) + 1)
     > SEPARATOR \<and>
   decode_loop (burst [4450, 4450, 550, 1675, 550, 15000, 550, 1675]) 4
       \<lparr>BitNumber = 1, FlagError = FLAG_OFF, Loop2UInt16 = 2, DataBuffer = 1, Reports = []\<rparr> =
     decode_loop (burst [4450, 4450, 550, 1675, 550, 15000, 550, 1675]) (4 + 2)
       \<lparr>BitNumber = 2, FlagError = FLAG_OFF, Loop2UInt16 = 2, DataBuffer = 3,
        Reports = [EndOfData 4]\<rparr>"
proof -
  have lt: "(4 :: 16 word) < IrStepCount (burst [4450, 4450, 550, 1675, 550, 15000, 550, 1675])"
    by (simp add: burst_def)
  have lo: "NUMBER_OF_WAKEUP_STEPS \<le> unat (4 :: 16 word)"
    by (simp add: NUMBER_OF_WAKEUP_STEPS_def)
  have lv: "unat (4 :: 16 word) + 1 <
     length (IrLevel (burst [4450, 4450, 550, 1675, 550, 15000, 550, 1675]))"
    by (simp add: burst_def MAX_IR_READINGS_def)
  have rv: "unat (4 :: 16 word) + 1 <
     length (IrResultValue (burst [4450, 4450, 550, 1675, 550, 15000, 550, 1675]))"
    by (simp add: burst_def MAX_IR_READINGS_def)
  have hi: "IrResultValue (burst [4450, 4450, 550, 1675, 550, 15000, 550, 1675]) !
              (unat (4 :: 16 word) + 1) > SEPARATOR"
    by (simp add: burst_def SEPARATOR_def)
  then have sep: "IrResultValue (burst [4450, 4450, 550, 1675, 550, 15000, 550, 1675]) !
              unat (4 :: 16 word) > SEPARATOR \<or>
            IrResultValue (burst [4450, 4450, 550, 1675, 550, 15000, 550, 1675]) !
              (unat (4 :: 16 word) + 1) > SEPARATOR"
    by (rule disjI2)
  have v: "IrResultValue (burst [4450, 4450, 550, 1675, 550, 15000, 550, 1675]) !
              (unat (4 :: 16 word) + 1) = 15000"
    by (simp add: burst_def)
  have st: "\<lparr>BitNumber = 1, FlagError = FLAG_OFF, Loop2UInt16 = 2, DataBuffer = 1, Reports = []\<rparr>
        \<lparr>BitNumber := of_nat ((unat (4 :: 16 word) - NUMBER_OF_WAKEUP_STEPS) div 2 + 1),
         DataBuffer :=
           (if 0 < (of_nat ((unat (4 :: 16 word) - NUMBER_OF_WAKEUP_STEPS) div 2 + 1) :: 8 word) \<and>
               unat (of_nat ((unat (4 :: 16 word) - NUMBER_OF_WAKEUP_STEPS) div 2 + 1) :: 8 word)
                 \<le> NUMBER_OF_BITS
            then push_bit 1 (DataBuffer \<lparr>BitNumber = 1, FlagError = FLAG_OFF, Loop2UInt16 = 2,
                                          DataBuffer = 1, Reports = []\<rparr>) +
                 (if IrResultValue (burst [4450, 4450, 550, 1675, 550, 15000, 550, 1675]) !
                       (unat (4 :: 16 word) + 1) > TRIGGER_POINT_0_1 then 1 else 0)
            else DataBuffer \<lparr>BitNumber = 1, FlagError = FLAG_OFF, Loop2UInt16 = 2,
                              DataBuffer = 1, Reports = []\<rparr>),
         Reports := Reports \<lparr>BitNumber = 1, FlagError = FLAG_OFF, Loop2UInt16 = 2,
                              DataBuffer = 1, Reports = []\<rparr> @ [EndOfData (unat (4 :: 16 word))]\<rparr> =
        \<lparr>BitNumber = 2, FlagError = FLAG_OFF, Loop2UInt16 = 2, DataBuffer = 3,
         Reports = [EndOfData 4]\<rparr>"
    unfolding v by (simp add: NUMBER_OF_WAKEUP_STEPS_def NUMBER_OF_BITS_def TRIGGER_POINT_0_1_def)
  note t = separator_is_reported_and_scan_continues [OF lt lo lv rv sep,
      of "\<lparr>BitNumber = 1, FlagError = FLAG_OFF, Loop2UInt16 = 2, DataBuffer = 1, Reports = []\<rparr>"]
  from t have run: "decode_loop (burst [4450, 4450, 550, 1675, 550, 15000, 550, 1675]) 4
       \<lparr>BitNumber = 1, FlagError = FLAG_OFF, Loop2UInt16 = 2, DataBuffer = 1, Reports = []\<rparr> =
     decode_loop (burst [4450, 4450, 550, 1675, 550, 15000, 550, 1675]) (4 + 2)
       \<lparr>BitNumber = 2, FlagError = FLAG_OFF, Loop2UInt16 = 2, DataBuffer = 3,
        Reports = [EndOfData 4]\<rparr>"
    unfolding st .
  from lt lo lv rv hi run show ?thesis by (intro conjI)
qed

subsection \<open>The events the decoder reads\<close>




end
